theory Spec2Isabelle
  imports Main "HOL-Library.Word" "HOL-Library.Multiset" "HOL-Library.Char_ord"
    "HOL-Library.List_Lexorder"
begin

section \<open>The company batch processor (package middleware)\<close>

text \<open>
  The Go package \<^verbatim>\<open>middleware\<close> keeps companies in one MongoDB collection and offers
  \<^verbatim>\<open>NewBatchProcessor\<close>, \<^verbatim>\<open>ProcessBatch\<close>, \<^verbatim>\<open>UpdateTreatedField\<close> and
  \<^verbatim>\<open>FetchAllCompanies\<close>. The embedding has two layers.

  \<^item> The functions of the package, translated statement by statement. They talk to the
    collection through a handle, here a record of functions over an arbitrary store state
    \<open>'s\<close>; the state is passed in and returned. A Go \<^verbatim>\<open>error\<close> is its message;
    \<^verbatim>\<open>nil\<close> is \<open>None\<close>. Each call of \<^verbatim>\<open>log.Printf\<close> is returned as a log entry.
    The \<^verbatim>\<open>context.Context\<close> argument only bounds the time of a call; a deadline that
    strikes shows as an error of the call.
  \<^item> A model of the document store behind the handle, for the properties that speak of
    the stored documents.
\<close>

subsection \<open>Data\<close>

type_synonym error = string

text \<open>\<^verbatim>\<open>int64\<close>, and \<^verbatim>\<open>int\<close> on a 64-bit platform: addition wraps.\<close>

type_synonym int64 = "64 word"
type_synonym go_int = "64 word"

record Company =
  Name :: string
  Address :: string
  Treated :: bool

text \<open>
  The \<^verbatim>\<open>bson.M\<close> literals of the package only use the keys \<^verbatim>\<open>"name"\<close>,
  \<^verbatim>\<open>"address"\<close> and \<^verbatim>\<open>"treated"\<close>, with a string, a string and a bool: an element is
  one of these three. \<open>UpdateSet es\<close> is \<^verbatim>\<open>bson.M{"$set": es}\<close>.
\<close>

datatype bson_elem = E_name string | E_address string | E_treated bool

type_synonym bson_M = "bson_elem list"

datatype update_doc = UpdateSet bson_M

datatype field_key = K_name | K_address | K_treated

record UpdateOneModel =
  Filter :: bson_M
  Update :: update_doc
  Upsert :: bool

definition NewUpdateOneModel :: UpdateOneModel where
  "NewUpdateOneModel = \<lparr>Filter = [], Update = UpdateSet [], Upsert = False\<rparr>"

definition SetFilter :: "bson_M \<Rightarrow> UpdateOneModel \<Rightarrow> UpdateOneModel" where
  "SetFilter f m = m\<lparr>Filter := f\<rparr>"

definition SetUpdate :: "update_doc \<Rightarrow> UpdateOneModel \<Rightarrow> UpdateOneModel" where
  "SetUpdate u m = m\<lparr>Update := u\<rparr>"

definition SetUpsert :: "bool \<Rightarrow> UpdateOneModel \<Rightarrow> UpdateOneModel" where
  "SetUpsert b m = m\<lparr>Upsert := b\<rparr>"

text \<open>\<^verbatim>\<open>options.BulkWrite()\<close>: a bulk write is ordered unless told otherwise.\<close>

record BulkWriteOptions =
  Ordered :: bool

definition options_BulkWrite :: BulkWriteOptions where
  "options_BulkWrite = \<lparr>Ordered = True\<rparr>"

definition SetOrdered :: "bool \<Rightarrow> BulkWriteOptions \<Rightarrow> BulkWriteOptions" where
  "SetOrdered b opts = opts\<lparr>Ordered := b\<rparr>"

text \<open>\<^verbatim>\<open>options.Find()\<close>; a sort is a \<^verbatim>\<open>bson.D\<close> of keys with a direction.\<close>

record FindOptions =
  Sort :: "(field_key \<times> int) list"

definition options_Find :: FindOptions where
  "options_Find = \<lparr>Sort = []\<rparr>"

definition SetSort :: "(field_key \<times> int) list \<Rightarrow> FindOptions \<Rightarrow> FindOptions" where
  "SetSort d opts = opts\<lparr>Sort := d\<rparr>"

text \<open>
  The counters of \<^verbatim>\<open>mongo.BulkWriteResult\<close> and \<^verbatim>\<open>mongo.UpdateResult\<close> that the
  package reads. Both result types carry them under the same names.
\<close>

record WriteResult =
  MatchedCount :: int64
  ModifiedCount :: int64
  UpsertedCount :: int64

type_synonym BulkWriteResult = WriteResult
type_synonym UpdateResult = WriteResult

text \<open>A cursor, for what \<^verbatim>\<open>cursor.All\<close> gives: the decoded documents or an error.\<close>

datatype Cursor = Cursor "error + Company list"

fun cursor_All :: "Cursor \<Rightarrow> error + Company list" where
  "cursor_All (Cursor r) = r"

text \<open>
  The handle \<^verbatim>\<open>bp.collection\<close>: the three methods of \<^verbatim>\<open>*mongo.Collection\<close> that the
  package calls. A write returns its result, its error and the new state of the store.
\<close>

record 's Collection =
  BulkWrite :: "'s \<Rightarrow> UpdateOneModel list \<Rightarrow> BulkWriteOptions \<Rightarrow> (BulkWriteResult \<times> error option) \<times> 's"
  UpdateOne :: "'s \<Rightarrow> bson_M \<Rightarrow> update_doc \<Rightarrow> (UpdateResult \<times> error option) \<times> 's"
  Find :: "'s \<Rightarrow> bson_M \<Rightarrow> FindOptions \<Rightarrow> error + Cursor"

text \<open>The two \<^verbatim>\<open>log.Printf\<close> lines of the package, with their arguments.\<close>

datatype log_entry =
  Printf_processed go_int int64 int64
| Printf_updated string

subsection \<open>ProcessBatch\<close>

text \<open>The loop that builds one write model per company, appending to \<open>operations\<close>.\<close>

fun build_operations :: "Company list \<Rightarrow> UpdateOneModel list \<Rightarrow> UpdateOneModel list" where
  "build_operations [] operations = operations"
| "build_operations (company # companies) operations =
     build_operations companies
       (operations @
         [SetUpsert True
           (SetUpdate (UpdateSet [E_name (Name company), E_address (Address company),
                                  E_treated (Treated company)])
             (SetFilter [E_name (Name company)] NewUpdateOneModel))])"

definition ProcessBatch ::
  "'s Collection \<Rightarrow> 's \<Rightarrow> Company list \<Rightarrow> (go_int \<times> error option) \<times> log_entry list \<times> 's" where
  "ProcessBatch coll s companies =
     (if length companies = 0 then ((0, None), [], s)
      else
        let operations = build_operations companies [];
            opts = SetOrdered False options_BulkWrite;
            ((result, err), s') = BulkWrite coll s operations opts
        in case err of
             Some e \<Rightarrow> ((0, Some (''failed to process batch: '' @ e)), [], s')
           | None \<Rightarrow>
               let totalModified = ModifiedCount result + UpsertedCount result
               in ((totalModified, None),
                   [Printf_processed totalModified (ModifiedCount result) (UpsertedCount result)],
                   s'))"

subsection \<open>UpdateTreatedField\<close>

definition UpdateTreatedField ::
  "'s Collection \<Rightarrow> 's \<Rightarrow> string \<Rightarrow> error option \<times> log_entry list \<times> 's" where
  "UpdateTreatedField coll s companyName =
     (let filter_m = [E_name companyName];
          update = UpdateSet [E_treated True];
          ((result, err), s') = UpdateOne coll s filter_m update
      in case err of
           Some e \<Rightarrow> (Some (''failed to update treated field: '' @ e), [], s')
         | None \<Rightarrow>
             if MatchedCount result = 0
             then (Some (''company not found: '' @ companyName), [], s')
             else if ModifiedCount result = 0
             then (Some (''company found but no update performed: '' @ companyName), [], s')
             else (None, [Printf_updated companyName], s'))"

subsection \<open>FetchAllCompanies\<close>

definition FetchAllCompanies :: "'s Collection \<Rightarrow> 's \<Rightarrow> error + Company list" where
  "FetchAllCompanies coll s =
     (let opts = SetSort [(K_name, 1)] options_Find
      in case Find coll s [] opts of
           Inl e \<Rightarrow> Inl (''failed to fetch companies: '' @ e)
         | Inr cursor \<Rightarrow>
             (case cursor_All cursor of
                Inl e \<Rightarrow> Inl (''failed to decode companies: '' @ e)
              | Inr companies \<Rightarrow> Inr companies))"

section \<open>The document store\<close>

text \<open>
  Modelled from the spec: the document store behind \<^verbatim>\<open>mongo.Collection\<close>. It is an
  external service (spec, section 1: "an external service offering indexed collection
  storage with a bulk-write primitive"); the repository holds no code of it. The model
  follows the spec's words for it: an upsert "updates a matching document or inserts a new
  one if no match exists, keyed by a filter"; in an unordered bulk write "one failing
  operation does not block execution of the remaining operations"; a uniqueness constraint
  on \<^verbatim>\<open>name\<close>; a read "ordered ascending by name".

  A stored document has the persisted layout \<^verbatim>\<open>{name, address, treated}\<close> (spec, section
  6), so it is a \<open>Company\<close>; the identifier the store adds to a document is not part of
  \<open>Company\<close> and is left out. The documents are kept in the order of their insertion.
\<close>

record Store =
  documents :: "Company list"
  unique_name_index :: bool

text \<open>
  What the world outside decides for one call: \<open>unreachable\<close>, the error of a command that
  does not reach the store; \<open>rejects\<close>, the error with which the store refuses one write
  operation on its own (a malformed entry); \<open>cursor_failure\<close>, an error while a cursor is
  read; \<open>priority\<close>, the order in which the store runs the operations of an unordered
  bulk write (lower first, operations of equal priority in the order of the list).
\<close>

record Env =
  unreachable :: "error option"
  rejects :: "UpdateOneModel \<Rightarrow> error option"
  cursor_failure :: "error option"
  priority :: "UpdateOneModel \<Rightarrow> nat"

fun elem_holds :: "bson_elem \<Rightarrow> Company \<Rightarrow> bool" where
  "elem_holds (E_name x) d = (Name d = x)"
| "elem_holds (E_address x) d = (Address d = x)"
| "elem_holds (E_treated b) d = (Treated d = b)"

text \<open>A filter matches a document when each of its elements does; the empty one matches all.\<close>

definition matches :: "bson_M \<Rightarrow> Company \<Rightarrow> bool" where
  "matches f d = list_all (\<lambda>e. elem_holds e d) f"

fun put_elem :: "bson_elem \<Rightarrow> Company \<Rightarrow> Company" where
  "put_elem (E_name x) d = d\<lparr>Name := x\<rparr>"
| "put_elem (E_address x) d = d\<lparr>Address := x\<rparr>"
| "put_elem (E_treated b) d = d\<lparr>Treated := b\<rparr>"

fun apply_update :: "update_doc \<Rightarrow> Company \<Rightarrow> Company" where
  "apply_update (UpdateSet es) d = fold put_elem es d"

text \<open>The position of the first document, in storage order, that satisfies \<open>P\<close>.\<close>

fun first_match :: "(Company \<Rightarrow> bool) \<Rightarrow> Company list \<Rightarrow> nat option" where
  "first_match P [] = None"
| "first_match P (d # ds) = (if P d then Some 0 else map_option Suc (first_match P ds))"

text \<open>
  The document an upsert inserts when nothing matches: the fields the filter fixes, then
  the update applied; a field named by neither has its zero value.
\<close>

definition upsert_document :: "UpdateOneModel \<Rightarrow> Company" where
  "upsert_document m =
     apply_update (Update m) (fold put_elem (Filter m) \<lparr>Name = [], Address = [], Treated = False\<rparr>)"

definition duplicate_key :: error where
  "duplicate_key = ''E11000 duplicate key error''"

text \<open>
  Modelled from the spec: one update-one operation of the store. The first matching
  document is updated, and counts as modified only when the update changes it. With no
  match, an upsert inserts. The unique index refuses a write that would give a second
  document the same name.
\<close>

definition write_one :: "Env \<Rightarrow> UpdateOneModel \<Rightarrow> Store \<Rightarrow> error + (Store \<times> WriteResult)" where
  "write_one env m s =
     (case rejects env m of
        Some e \<Rightarrow> Inl e
      | None \<Rightarrow>
          (case first_match (matches (Filter m)) (documents s) of
             Some i \<Rightarrow>
               let d = documents s ! i;
                   d' = apply_update (Update m) d
               in if d' = d
                  then Inr (s, \<lparr>MatchedCount = 1, ModifiedCount = 0, UpsertedCount = 0\<rparr>)
                  else if unique_name_index s \<and> Name d' \<noteq> Name d
                          \<and> Name d' \<in> set (map Name (documents s))
                  then Inl duplicate_key
                  else Inr (s\<lparr>documents := (documents s)[i := d']\<rparr>,
                            \<lparr>MatchedCount = 1, ModifiedCount = 1, UpsertedCount = 0\<rparr>)
           | None \<Rightarrow>
               if Upsert m
               then let d' = upsert_document m
                    in if unique_name_index s \<and> Name d' \<in> set (map Name (documents s))
                       then Inl duplicate_key
                       else Inr (s\<lparr>documents := documents s @ [d']\<rparr>,
                                 \<lparr>MatchedCount = 0, ModifiedCount = 0, UpsertedCount = 1\<rparr>)
               else Inr (s, \<lparr>MatchedCount = 0, ModifiedCount = 0, UpsertedCount = 0\<rparr>)))"

definition no_writes :: WriteResult where
  "no_writes = \<lparr>MatchedCount = 0, ModifiedCount = 0, UpsertedCount = 0\<rparr>"

definition add_counts :: "WriteResult \<Rightarrow> WriteResult \<Rightarrow> WriteResult" where
  "add_counts r u =
     \<lparr>MatchedCount = MatchedCount r + MatchedCount u,
      ModifiedCount = ModifiedCount r + ModifiedCount u,
      UpsertedCount = UpsertedCount r + UpsertedCount u\<rparr>"

text \<open>
  Modelled from the spec: the operations of a bulk write in the store, run one after the
  other. After an operation that fails, an ordered bulk write stops; an unordered one goes
  on with the rest.
\<close>

fun run_writes ::
  "Env \<Rightarrow> bool \<Rightarrow> UpdateOneModel list \<Rightarrow> Store \<Rightarrow> WriteResult \<Rightarrow> error list
     \<Rightarrow> Store \<times> WriteResult \<times> error list" where
  "run_writes env ordered [] s r errs = (s, r, errs)"
| "run_writes env ordered (m # ms) s r errs =
     (case write_one env m s of
        Inl e \<Rightarrow>
          if ordered then (s, r, errs @ [e])
          else run_writes env ordered ms s r (errs @ [e])
      | Inr (s', u) \<Rightarrow> run_writes env ordered ms s' (add_counts r u) errs)"

definition bulk_write_exception :: "error list \<Rightarrow> error" where
  "bulk_write_exception errs = ''bulk write exception: write errors: '' @ concat errs"

text \<open>
  Modelled from the spec: the store's side of \<^verbatim>\<open>BulkWrite\<close>, \<^verbatim>\<open>UpdateOne\<close> and
  \<^verbatim>\<open>Find\<close>. The driver refuses an empty list of models before it sends anything. An
  ordered bulk write runs its operations in the order of the list; an unordered one gives
  no such guarantee, and the store runs them by their \<open>priority\<close>. A bulk write in which
  an operation failed returns an error next to the counts of the operations that went
  through.
\<close>

definition execution_order :: "Env \<Rightarrow> BulkWriteOptions \<Rightarrow> UpdateOneModel list \<Rightarrow> UpdateOneModel list" where
  "execution_order env opts models =
     (if Ordered opts then models else sort_key (priority env) models)"

definition store_BulkWrite ::
  "Env \<Rightarrow> Store \<Rightarrow> UpdateOneModel list \<Rightarrow> BulkWriteOptions \<Rightarrow> (BulkWriteResult \<times> error option) \<times> Store" where
  "store_BulkWrite env s models opts =
     (if models = [] then ((no_writes, Some ''must provide at least one element in input slice''), s)
      else
        case unreachable env of
          Some e \<Rightarrow> ((no_writes, Some e), s)
        | None \<Rightarrow>
            let (s', r, errs) =
                  run_writes env (Ordered opts) (execution_order env opts models) s no_writes []
            in ((r, if errs = [] then None else Some (bulk_write_exception errs)), s'))"

definition store_UpdateOne ::
  "Env \<Rightarrow> Store \<Rightarrow> bson_M \<Rightarrow> update_doc \<Rightarrow> (UpdateResult \<times> error option) \<times> Store" where
  "store_UpdateOne env s f u =
     (case unreachable env of
        Some e \<Rightarrow> ((no_writes, Some e), s)
      | None \<Rightarrow>
          (case write_one env \<lparr>Filter = f, Update = u, Upsert = False\<rparr> s of
             Inl e \<Rightarrow> ((no_writes, Some e), s)
           | Inr (s', r) \<Rightarrow> ((r, None), s')))"

text \<open>
  Modelled from the spec: the store's sort. Sorting by one key; a negative direction is
  descending. Strings compare byte by byte, a proper prefix before its extensions.
\<close>

fun order_by :: "field_key \<times> int \<Rightarrow> Company list \<Rightarrow> Company list" where
  "order_by (K_name, dir) ds = (if dir < 0 then rev (sort_key Name ds) else sort_key Name ds)"
| "order_by (K_address, dir) ds =
     (if dir < 0 then rev (sort_key Address ds) else sort_key Address ds)"
| "order_by (K_treated, dir) ds =
     (if dir < 0 then rev (sort_key Treated ds) else sort_key Treated ds)"

text \<open>The first key of a sort is the most significant: the stable sorts run from the last.\<close>

definition sort_documents :: "(field_key \<times> int) list \<Rightarrow> Company list \<Rightarrow> Company list" where
  "sort_documents keys ds = fold order_by (rev keys) ds"

definition store_Find :: "Env \<Rightarrow> Store \<Rightarrow> bson_M \<Rightarrow> FindOptions \<Rightarrow> error + Cursor" where
  "store_Find env s f opts =
     (case unreachable env of
        Some e \<Rightarrow> Inl e
      | None \<Rightarrow>
          (case cursor_failure env of
             Some e \<Rightarrow> Inr (Cursor (Inl e))
           | None \<Rightarrow> Inr (Cursor (Inr (sort_documents (Sort opts) (filter (matches f) (documents s)))))))"

definition store_collection :: "Env \<Rightarrow> Store Collection" where
  "store_collection env =
     \<lparr>BulkWrite = store_BulkWrite env, UpdateOne = store_UpdateOne env, Find = store_Find env\<rparr>"

section \<open>NewBatchProcessor\<close>

text \<open>
  \<^verbatim>\<open>NewBatchProcessor\<close>, from the source: it connects, pings, and creates the unique
  index on \<^verbatim>\<open>name\<close>; each step can fail, and each failure is wrapped in its own message.
  \<open>Startup\<close> is what the world decides for the first two steps. The pool options play no
  part in what is stored. The handles of the returned struct are the \<open>Collection\<close> passed
  to each method; \<open>s\<close> is the collection named by the URI, the database and the collection
  name, as the call finds it.

  Modelled from the spec: \<open>create_unique_name_index\<close>, the store's side of
  \<^verbatim>\<open>Indexes().CreateOne\<close>. Building a unique index fails on a collection that already
  holds two documents of one name.
\<close>

record Startup =
  connect_error :: "error option"
  ping_error :: "error option"

record BatchProcessor =
  batchSize :: int
  workers :: int

definition create_unique_name_index :: "Store \<Rightarrow> error + Store" where
  "create_unique_name_index s =
     (if distinct (map Name (documents s)) then Inr (s\<lparr>unique_name_index := True\<rparr>)
      else Inl duplicate_key)"

definition NewBatchProcessor ::
  "Startup \<Rightarrow> Store \<Rightarrow> int \<Rightarrow> int \<Rightarrow> error + (BatchProcessor \<times> Store)" where
  "NewBatchProcessor st s batchSize_arg numWorkers =
     (case connect_error st of
        Some e \<Rightarrow> Inl (''failed to connect to MongoDB: '' @ e)
      | None \<Rightarrow>
          (case ping_error st of
             Some e \<Rightarrow> Inl (''failed to ping MongoDB: '' @ e)
           | None \<Rightarrow>
               (case create_unique_name_index s of
                  Inl e \<Rightarrow> Inl (''failed to create index: '' @ e)
                | Inr s' \<Rightarrow> Inr (\<lparr>batchSize = batchSize_arg, workers = numWorkers\<rparr>, s'))))"

section \<open>Notions the properties are stated with\<close>

subsection \<open>Write models and handles\<close>

text \<open>
  The upsert instruction of one record, as the spec describes it: the filter is equality
  on the record's name, the update sets the three fields, upsert is on.
\<close>

definition upsert_model :: "Company \<Rightarrow> UpdateOneModel" where
  "upsert_model c =
     \<lparr>Filter = [E_name (Name c)],
      Update = UpdateSet [E_name (Name c), E_address (Address c), E_treated (Treated c)],
      Upsert = True\<rparr>"

text \<open>The update that \<^verbatim>\<open>UpdateTreatedField\<close> sends for a name.\<close>

definition treated_model :: "string \<Rightarrow> UpdateOneModel" where
  "treated_model n = \<lparr>Filter = [E_name n], Update = UpdateSet [E_treated True], Upsert = False\<rparr>"

text \<open>
  A handle that does nothing but record the bulk writes it is given: its state is the list
  of the calls so far, each with its models and its options.
\<close>

definition recording :: "(UpdateOneModel list \<times> BulkWriteOptions) list Collection" where
  "recording =
     \<lparr>BulkWrite = (\<lambda>calls models opts. ((no_writes, None), calls @ [(models, opts)])),
      UpdateOne = (\<lambda>calls f u. ((no_writes, None), calls)),
      Find = (\<lambda>calls f opts. Inl [])\<rparr>"

subsection \<open>Upserts on a list of documents\<close>

text \<open>
  \<open>upsert c ds\<close> replaces the first document of \<open>c\<close>'s name by \<open>c\<close>, and appends \<open>c\<close>
  when no document has that name. \<open>upsert_counts c ds\<close> are the counters of that step.
\<close>

fun upsert :: "Company \<Rightarrow> Company list \<Rightarrow> Company list" where
  "upsert c [] = [c]"
| "upsert c (d # ds) = (if Name d = Name c then c # ds else d # upsert c ds)"

fun upsert_counts :: "Company \<Rightarrow> Company list \<Rightarrow> WriteResult" where
  "upsert_counts c [] = \<lparr>MatchedCount = 0, ModifiedCount = 0, UpsertedCount = 1\<rparr>"
| "upsert_counts c (d # ds) =
     (if Name d = Name c
      then \<lparr>MatchedCount = 1, ModifiedCount = (if d = c then 0 else 1), UpsertedCount = 0\<rparr>
      else upsert_counts c ds)"

fun tally :: "Company list \<Rightarrow> Company list \<Rightarrow> WriteResult \<Rightarrow> WriteResult" where
  "tally [] ds r = r"
| "tally (c # cs) ds r = tally cs (upsert c ds) (add_counts r (upsert_counts c ds))"

text \<open>
  The number of upserts of a run that change a document in place: the list of documents
  is another one afterwards, and no longer.
\<close>

fun in_place_updates :: "Company list \<Rightarrow> Company list \<Rightarrow> nat" where
  "in_place_updates [] ds = 0"
| "in_place_updates (c # cs) ds =
     (if length (upsert c ds) = length ds \<and> upsert c ds \<noteq> ds then 1 else 0)
       + in_place_updates cs (upsert c ds)"

text \<open>
  The records of a batch in the order in which the store runs their upserts, those whose
  upsert the store does not refuse, and the errors of the others.
\<close>

definition run_order :: "Env \<Rightarrow> Company list \<Rightarrow> Company list" where
  "run_order env cs = sort_key (\<lambda>c. priority env (upsert_model c)) cs"

definition accepted :: "Env \<Rightarrow> Company list \<Rightarrow> Company list" where
  "accepted env cs = filter (\<lambda>c. rejects env (upsert_model c) = None) cs"

definition refusals :: "Env \<Rightarrow> Company list \<Rightarrow> error list" where
  "refusals env cs = List.map_filter (\<lambda>c. rejects env (upsert_model c)) cs"

text \<open>\<open>mark_treated n ds\<close> sets \<open>treated\<close> in the first document of name \<open>n\<close>.\<close>

fun mark_treated :: "string \<Rightarrow> Company list \<Rightarrow> Company list" where
  "mark_treated n [] = []"
| "mark_treated n (d # ds) =
     (if Name d = n then d\<lparr>Treated := True\<rparr> # ds else d # mark_treated n ds)"

subsection \<open>Sequences of calls\<close>

text \<open>The two writing methods, each call with what the world decides for it.\<close>

datatype operation = Op_ProcessBatch Env "Company list" | Op_UpdateTreatedField Env string

fun run_operation :: "operation \<Rightarrow> Store \<Rightarrow> Store" where
  "run_operation (Op_ProcessBatch env cs) s = snd (snd (ProcessBatch (store_collection env) s cs))"
| "run_operation (Op_UpdateTreatedField env n) s =
     snd (snd (UpdateTreatedField (store_collection env) s n))"

definition run_operations :: "operation list \<Rightarrow> Store \<Rightarrow> Store" where
  "run_operations ops s = fold run_operation ops s"

subsection \<open>Examples\<close>

definition acme :: Company where
  "acme = \<lparr>Name = ''Acme'', Address = ''1 Main St'', Treated = False\<rparr>"

definition bolt :: Company where
  "bolt = \<lparr>Name = ''Bolt'', Address = ''2 Side St'', Treated = True\<rparr>"

definition nameless :: Company where
  "nameless = \<lparr>Name = [], Address = ''3 Back St'', Treated = False\<rparr>"

definition empty_store :: Store where
  "empty_store = \<lparr>documents = [], unique_name_index = True\<rparr>"

definition two_companies :: Store where
  "two_companies = \<lparr>documents = [bolt, acme], unique_name_index = True\<rparr>"

text \<open>A world in which every call goes through, and bulk writes run in the order given.\<close>

definition env_ok :: Env where
  "env_ok = \<lparr>unreachable = None, rejects = (\<lambda>m. None), cursor_failure = None,
             priority = (\<lambda>m. 0)\<rparr>"

text \<open>
  A world in which the store refuses a write keyed by the empty name, and runs the
  upsert of Acme after the others.
\<close>

definition env_strict :: Env where
  "env_strict =
     \<lparr>unreachable = None,
      rejects = (\<lambda>m. if Filter m = [E_name []] then Some ''name must not be empty'' else None),
      cursor_failure = None,
      priority = (\<lambda>m. if Filter m = [E_name ''Acme''] then 1 else 0)\<rparr>"

text \<open>
  Acme at another address, and a world like \<open>env_ok\<close> in which the store runs the upsert
  of the first Acme record after the others.
\<close>

definition acme_moved :: Company where
  "acme_moved = \<lparr>Name = ''Acme'', Address = ''7 Hill Rd'', Treated = False\<rparr>"

definition env_reordered :: Env where
  "env_reordered =
     \<lparr>unreachable = None, rejects = (\<lambda>m. None), cursor_failure = None,
      priority = (\<lambda>m. if Update m = UpdateSet [E_name ''Acme'', E_address ''1 Main St'',
                                                E_treated False] then 1 else 0)\<rparr>"

lemmas example_defs = acme_def bolt_def nameless_def empty_store_def two_companies_def
  env_ok_def env_strict_def

lemmas store_defs = store_collection_def store_BulkWrite_def store_UpdateOne_def store_Find_def
  execution_order_def write_one_def matches_def upsert_document_def no_writes_def add_counts_def
  SetOrdered_def options_BulkWrite_def SetUpsert_def SetUpdate_def SetFilter_def
  NewUpdateOneModel_def bulk_write_exception_def duplicate_key_def

section \<open>Properties\<close>

subsection \<open>ProcessBatch on any handle\<close>

lemma build_operations_acc:
  "build_operations companies operations = operations @ map upsert_model companies"
  by (induction companies arbitrary: operations)
     (simp_all add: upsert_model_def SetUpsert_def SetUpdate_def SetFilter_def NewUpdateOneModel_def)

lemma build_operations_map: "build_operations companies [] = map upsert_model companies"
  by (simp add: build_operations_acc)

lemma bulk_options: "SetOrdered False options_BulkWrite = \<lparr>Ordered = False\<rparr>"
  by (simp add: SetOrdered_def options_BulkWrite_def)

lemma ProcessBatch_Nil: "ProcessBatch coll s [] = ((0, None), [], s)"
  by (simp add: ProcessBatch_def)

lemma ProcessBatch_nonempty:
  assumes "companies \<noteq> []"
  shows "ProcessBatch coll s companies =
     (case BulkWrite coll s (map upsert_model companies) \<lparr>Ordered = False\<rparr> of
        ((result, Some e), s') \<Rightarrow> ((0, Some (''failed to process batch: '' @ e)), [], s')
      | ((result, None), s') \<Rightarrow>
          ((ModifiedCount result + UpsertedCount result, None),
           [Printf_processed (ModifiedCount result + UpsertedCount result)
              (ModifiedCount result) (UpsertedCount result)], s'))"
  using assms
  by (simp add: ProcessBatch_def build_operations_map bulk_options Let_def
      split: prod.splits option.splits)

lemma matches_name [simp]: "matches [E_name n] d = (Name d = n)"
  by (simp add: matches_def)

lemma matches_all [simp]: "matches [] d"
  by (simp add: matches_def)

lemma apply_upsert_update [simp]: "apply_update (Update (upsert_model c)) d = c"
  by (simp add: upsert_model_def)

lemma upsert_document_model [simp]: "upsert_document (upsert_model c) = c"
  by (simp add: upsert_document_def)

text \<open>
  C6. \<^verbatim>\<open>ProcessBatch\<close> on an empty sequence of records returns \<open>(0, nil)\<close>: no error,
  no log line, and the store as it was, whatever the handle would have done with a call.
\<close>

theorem ProcessBatch_empty:
  "ProcessBatch coll s [] = ((0, None), [], s)"
  by (simp add: ProcessBatch_def)

text \<open>
  C1. For the records of its input, \<^verbatim>\<open>ProcessBatch\<close> builds one upsert instruction per
  record, in the order of the records: the filter is equality on the record's name, the
  update sets name, address and treated to the record's (so it turns any stored document
  into the record), and upsert is on. A non-empty batch goes to the store as one bulk
  write of all its instructions with \<open>Ordered = False\<close>: on any handle the store is left as
  that one call leaves it, and the recording handle has exactly one more call, holding the
  whole list.
\<close>

theorem ProcessBatch_one_upsert_per_record:
  "build_operations companies [] = map upsert_model companies
   \<and> length (build_operations companies []) = length companies
   \<and> upsert_model c =
        \<lparr>Filter = [E_name (Name c)],
         Update = UpdateSet [E_name (Name c), E_address (Address c), E_treated (Treated c)],
         Upsert = True\<rparr>
   \<and> matches (Filter (upsert_model c)) d = (Name d = Name c)
   \<and> apply_update (Update (upsert_model c)) d = c
   \<and> (companies \<noteq> [] \<longrightarrow>
        snd (snd (ProcessBatch coll s companies))
          = snd (BulkWrite coll s (map upsert_model companies) \<lparr>Ordered = False\<rparr>)
        \<and> snd (snd (ProcessBatch recording calls companies))
          = calls @ [(map upsert_model companies, \<lparr>Ordered = False\<rparr>)])"
proof -
  have "matches (Filter (upsert_model c)) d = (Name d = Name c)"
    by (simp add: upsert_model_def)
  moreover have "upsert_model c =
        \<lparr>Filter = [E_name (Name c)],
         Update = UpdateSet [E_name (Name c), E_address (Address c), E_treated (Treated c)],
         Upsert = True\<rparr>"
    by (simp add: upsert_model_def)
  moreover have "snd (snd (ProcessBatch coll s companies))
          = snd (BulkWrite coll s (map upsert_model companies) \<lparr>Ordered = False\<rparr>)"
    if "companies \<noteq> []"
    using that by (simp add: ProcessBatch_nonempty split: prod.splits option.splits)
  moreover have "snd (snd (ProcessBatch recording calls companies))
          = calls @ [(map upsert_model companies, \<lparr>Ordered = False\<rparr>)]"
    if "companies \<noteq> []"
    using that by (simp add: ProcessBatch_nonempty recording_def)
  ultimately show ?thesis
    by (simp add: build_operations_map)
qed

theorem ProcessBatch_one_upsert_per_record_witness:
  "build_operations [acme, bolt] [] =
     [\<lparr>Filter = [E_name ''Acme''],
       Update = UpdateSet [E_name ''Acme'', E_address ''1 Main St'', E_treated False],
       Upsert = True\<rparr>,
      \<lparr>Filter = [E_name ''Bolt''],
       Update = UpdateSet [E_name ''Bolt'', E_address ''2 Side St'', E_treated True],
       Upsert = True\<rparr>]
   \<and> snd (snd (ProcessBatch recording [] [acme, bolt]))
       = [([\<lparr>Filter = [E_name ''Acme''],
             Update = UpdateSet [E_name ''Acme'', E_address ''1 Main St'', E_treated False],
             Upsert = True\<rparr>,
            \<lparr>Filter = [E_name ''Bolt''],
             Update = UpdateSet [E_name ''Bolt'', E_address ''2 Side St'', E_treated True],
             Upsert = True\<rparr>], \<lparr>Ordered = False\<rparr>)]"
proof -
  have ne: "[acme, bolt] \<noteq> []" by simp
  note all = ProcessBatch_one_upsert_per_record [of "[acme, bolt]" acme acme recording "[]" "[]"]
  from all have built: "build_operations [acme, bolt] [] = map upsert_model [acme, bolt]"
    by blast
  from all ne have sent: "snd (snd (ProcessBatch recording [] [acme, bolt]))
      = [] @ [(map upsert_model [acme, bolt], \<lparr>Ordered = False\<rparr>)]"
    by blast
  show ?thesis
    unfolding built sent by (simp add: upsert_model_def acme_def bolt_def)
qed

text \<open>
  C10. Whenever the bulk write of a non-empty batch returns an error, \<^verbatim>\<open>ProcessBatch\<close>
  returns the count 0 with the error wrapped as "failed to process batch: ...", logs
  nothing, and leaves the store as the bulk write left it. The counters of the result are
  not looked at: in the example after the theorem the store applied one record of the
  batch and refused the other, and the count is 0 all the same.
\<close>

theorem ProcessBatch_error:
  assumes "companies \<noteq> []"
    and "BulkWrite coll s (build_operations companies []) (SetOrdered False options_BulkWrite)
          = ((result, Some e), s')"
  shows "ProcessBatch coll s companies = ((0, Some (''failed to process batch: '' @ e)), [], s')"
  using assms by (simp add: ProcessBatch_def Let_def)

theorem ProcessBatch_error_witness:
  "ProcessBatch (store_collection env_strict) empty_store [acme, nameless] =
     ((0, Some ''failed to process batch: bulk write exception: write errors: name must not be empty''),
      [], \<lparr>documents = [acme], unique_name_index = True\<rparr>)"
proof -
  have ne: "[acme, nameless] \<noteq> []" by simp
  have call: "BulkWrite (store_collection env_strict) empty_store (build_operations [acme, nameless] [])
      (SetOrdered False options_BulkWrite)
    = ((\<lparr>MatchedCount = 0, ModifiedCount = 0, UpsertedCount = 1\<rparr>,
        Some ''bulk write exception: write errors: name must not be empty''),
       \<lparr>documents = [acme], unique_name_index = True\<rparr>)"
    by (simp add: store_defs example_defs)
  from ProcessBatch_error [OF ne call] show ?thesis by simp
qed

subsection \<open>One upsert in the store\<close>

lemma first_match_None: "(first_match P ds = None) = (\<forall>d \<in> set ds. \<not> P d)"
  by (induction ds) auto

lemma first_match_Some:
  "first_match P ds = Some i \<Longrightarrow> i < length ds \<and> P (ds ! i) \<and> (\<forall>j < i. \<not> P (ds ! j))"
proof (induction ds arbitrary: i)
  case Nil
  then show ?case by simp
next
  case (Cons d ds)
  show ?case
  proof (cases "P d")
    case True
    with Cons.prems show ?thesis by simp
  next
    case False
    with Cons.prems obtain k where k: "first_match P ds = Some k" "i = Suc k"
      by auto
    from Cons.IH [OF k(1)] False k(2) show ?thesis
      by (auto simp: nth_Cons split: nat.splits)
  qed
qed

lemma upsert_first_match:
  "upsert c ds =
     (case first_match (\<lambda>d. Name d = Name c) ds of
        None \<Rightarrow> ds @ [c]
      | Some i \<Rightarrow> ds[i := c])"
  by (induction ds) (auto split: option.splits)

lemma upsert_counts_first_match:
  "upsert_counts c ds =
     (case first_match (\<lambda>d. Name d = Name c) ds of
        None \<Rightarrow> \<lparr>MatchedCount = 0, ModifiedCount = 0, UpsertedCount = 1\<rparr>
      | Some i \<Rightarrow>
          \<lparr>MatchedCount = 1, ModifiedCount = (if ds ! i = c then 0 else 1), UpsertedCount = 0\<rparr>)"
  by (induction ds) (auto split: option.splits)

text \<open>
  The store runs the upsert of a record as \<open>upsert\<close> says, unless it refuses it. The unique
  index never stands in the way: an update keeps the name, and an insert happens only when
  the name is new.
\<close>

lemma write_one_upsert:
  "write_one env (upsert_model c) s =
     (case rejects env (upsert_model c) of
        Some e \<Rightarrow> Inl e
      | None \<Rightarrow> Inr (s\<lparr>documents := upsert c (documents s)\<rparr>, upsert_counts c (documents s)))"
proof (cases "rejects env (upsert_model c)")
  case (Some e)
  then show ?thesis by (simp add: write_one_def)
next
  case None
  have F: "Filter (upsert_model c) = [E_name (Name c)]" "Upsert (upsert_model c)"
    by (simp_all add: upsert_model_def)
  have M: "matches [E_name (Name c)] = (\<lambda>d. Name d = Name c)"
    by (rule ext) simp
  show ?thesis
  proof (cases "first_match (\<lambda>d. Name d = Name c) (documents s)")
    case fm: None
    then have "Name c \<notin> set (map Name (documents s))"
      by (auto simp: first_match_None)
    with None fm show ?thesis
      by (simp add: write_one_def F M upsert_first_match upsert_counts_first_match)
  next
    case fm: (Some i)
    from first_match_Some [OF fm]
    have i: "i < length (documents s)" "Name (documents s ! i) = Name c"
      by auto
    show ?thesis
    proof (cases "documents s ! i = c")
      case True
      then have "(documents s)[i := c] = documents s"
        by (metis list_update_id)
      with None fm True show ?thesis
        by (simp add: write_one_def F M upsert_first_match upsert_counts_first_match)
    next
      case False
      with None fm i show ?thesis
        by (simp add: write_one_def F M upsert_first_match upsert_counts_first_match)
    qed
  qed
qed

lemma run_writes_unordered:
  "run_writes env False (map upsert_model cs) s r errs =
     (s\<lparr>documents := fold upsert (accepted env cs) (documents s)\<rparr>,
      tally (accepted env cs) (documents s) r,
      errs @ refusals env cs)"
proof (induction cs arbitrary: s r errs)
  case Nil
  then show ?case by (simp add: accepted_def refusals_def)
next
  case (Cons c cs)
  show ?case
  proof (cases "rejects env (upsert_model c)")
    case None
    then show ?thesis
      by (simp add: write_one_upsert Cons.IH accepted_def refusals_def)
  next
    case (Some e)
    then show ?thesis
      by (simp add: write_one_upsert Cons.IH accepted_def refusals_def)
  qed
qed

text \<open>An ordered bulk write would stop at the first operation that fails.\<close>

lemma run_writes_ordered_stops:
  "write_one env m s = Inl e \<Longrightarrow> run_writes env True (m # ms) s r errs = (s, r, errs @ [e])"
  by simp

lemma insort_key_map:
  "insort_key f (g x) (map g ys) = map g (insort_key (\<lambda>y. f (g y)) x ys)"
  by (induction ys) simp_all

lemma sort_key_map: "sort_key f (map g xs) = map g (sort_key (\<lambda>y. f (g y)) xs)"
  by (induction xs) (simp_all add: insort_key_map)

lemma execution_order_unordered:
  "execution_order env \<lparr>Ordered = False\<rparr> (map upsert_model cs) = map upsert_model (run_order env cs)"
  by (simp add: execution_order_def run_order_def sort_key_map)

lemma run_order_mset [simp]: "mset (run_order env cs) = mset cs"
  by (simp add: run_order_def)

lemma run_order_set [simp]: "set (run_order env cs) = set cs"
  by (simp add: run_order_def)

lemma run_order_Nil [simp]: "run_order env [] = []"
  by (simp add: run_order_def)

lemma refusals_Nil: "refusals env cs = [] \<Longrightarrow> accepted env cs = cs"
  by (induction cs)
     (auto simp: refusals_def accepted_def List.map_filter_simps split: option.splits)

subsection \<open>ProcessBatch on the store\<close>

lemma store_ProcessBatch:
  assumes "cs \<noteq> []"
  shows "ProcessBatch (store_collection env) s cs =
    (case unreachable env of
       Some e \<Rightarrow> ((0, Some (''failed to process batch: '' @ e)), [], s)
     | None \<Rightarrow>
        (let s' = s\<lparr>documents := fold upsert (accepted env (run_order env cs)) (documents s)\<rparr>;
             r = tally (accepted env (run_order env cs)) (documents s) no_writes
         in if refusals env (run_order env cs) = []
            then ((ModifiedCount r + UpsertedCount r, None),
                  [Printf_processed (ModifiedCount r + UpsertedCount r)
                     (ModifiedCount r) (UpsertedCount r)], s')
            else ((0, Some (''failed to process batch: ''
                             @ bulk_write_exception (refusals env (run_order env cs)))), [], s')))"
  using assms
  by (simp add: ProcessBatch_nonempty store_collection_def store_BulkWrite_def
      execution_order_unordered run_writes_unordered Let_def split: option.splits)

lemma store_ProcessBatch_state:
  "snd (snd (ProcessBatch (store_collection env) s cs)) =
     (case unreachable env of
        Some e \<Rightarrow> s
      | None \<Rightarrow> s\<lparr>documents := fold upsert (accepted env (run_order env cs)) (documents s)\<rparr>)"
proof (cases "cs = []")
  case True
  then show ?thesis
    by (simp add: ProcessBatch_Nil accepted_def split: option.splits)
next
  case False
  then show ?thesis
    by (simp add: store_ProcessBatch Let_def split: option.splits)
qed

subsection \<open>The algebra of upserts\<close>

lemma upsert_names:
  "map Name (upsert c ds) =
     (if Name c \<in> set (map Name ds) then map Name ds else map Name ds @ [Name c])"
  by (induction ds) auto

lemma upsert_name_set: "Name ` set (upsert c ds) = insert (Name c) (Name ` set ds)"
  using arg_cong [OF upsert_names, of set c ds] by auto

lemma upsert_distinct: "distinct (map Name ds) \<Longrightarrow> distinct (map Name (upsert c ds))"
  by (simp add: upsert_names)

lemma upsert_length:
  "length (upsert c ds) = (if Name c \<in> Name ` set ds then length ds else Suc (length ds))"
  using arg_cong [OF upsert_names, of length c ds] by simp

lemma fold_upsert_distinct:
  "distinct (map Name ds) \<Longrightarrow> distinct (map Name (fold upsert cs ds))"
  by (induction cs arbitrary: ds) (simp_all add: upsert_distinct)

lemma fold_upsert_name_set:
  "Name ` set (fold upsert cs ds) = Name ` set cs \<union> Name ` set ds"
  by (induction cs arbitrary: ds) (auto simp: upsert_name_set)

lemma fold_upsert_length_mono: "length ds \<le> length (fold upsert cs ds)"
proof (induction cs arbitrary: ds)
  case Nil
  then show ?case by simp
next
  case (Cons c cs)
  have "length ds \<le> length (upsert c ds)"
    by (simp add: upsert_length)
  also have "\<dots> \<le> length (fold upsert cs (upsert c ds))"
    by (rule Cons.IH)
  finally show ?case by simp
qed

lemma upsert_idem: "upsert c (upsert c ds) = upsert c ds"
  by (induction ds) auto

lemma upsert_overwrite: "Name c = Name c' \<Longrightarrow> upsert c (upsert c' ds) = upsert c ds"
  by (induction ds) auto

text \<open>Two upserts of different names commute once one of the names is stored.\<close>

lemma upsert_commute:
  "Name c \<noteq> Name c' \<Longrightarrow> Name c \<in> Name ` set ds \<Longrightarrow>
     upsert c (upsert c' ds) = upsert c' (upsert c ds)"
  by (induction ds) auto

text \<open>An upsert is lost under a run that writes the same name again.\<close>

lemma upsert_absorbed:
  "Name c \<in> Name ` set cs \<Longrightarrow> Name c \<in> Name ` set ds \<Longrightarrow>
     fold upsert cs (upsert c ds) = fold upsert cs ds"
proof (induction cs arbitrary: ds)
  case Nil
  then show ?case by simp
next
  case (Cons c' cs)
  show ?case
  proof (cases "Name c' = Name c")
    case True
    then show ?thesis by (simp add: upsert_overwrite)
  next
    case False
    with Cons.prems have in_cs: "Name c \<in> Name ` set cs" by auto
    have "upsert c' (upsert c ds) = upsert c (upsert c' ds)"
      using False Cons.prems(2) upsert_commute [of c c' ds] by simp
    moreover have "Name c \<in> Name ` set (upsert c' ds)"
      using Cons.prems(2) by (simp add: upsert_name_set)
    ultimately show ?thesis
      using Cons.IH [OF in_cs] by simp
  qed
qed

text \<open>An upsert of a stored name moves past a run that does not write that name.\<close>

lemma upsert_past_fold:
  "Name c \<notin> Name ` set cs \<Longrightarrow> Name c \<in> Name ` set ds \<Longrightarrow>
     upsert c (fold upsert cs ds) = fold upsert cs (upsert c ds)"
proof (induction cs arbitrary: ds)
  case Nil
  then show ?case by simp
next
  case (Cons c' cs)
  from Cons.prems have ne: "Name c \<noteq> Name c'" and out: "Name c \<notin> Name ` set cs"
    by auto
  have "Name c \<in> Name ` set (upsert c' ds)"
    using Cons.prems(2) by (simp add: upsert_name_set)
  from Cons.IH [OF out this] have "upsert c (fold upsert cs (upsert c' ds))
      = fold upsert cs (upsert c (upsert c' ds))" .
  also have "upsert c (upsert c' ds) = upsert c' (upsert c ds)"
    using ne Cons.prems(2) by (rule upsert_commute)
  finally show ?case by simp
qed

lemma fold_upsert_idem: "fold upsert cs (fold upsert cs ds) = fold upsert cs ds"
proof (induction cs arbitrary: ds)
  case Nil
  then show ?case by simp
next
  case (Cons c cs)
  define s1 where "s1 = upsert c ds"
  define t where "t = fold upsert cs s1"
  have IH: "fold upsert cs t = t"
    unfolding t_def by (rule Cons.IH)
  have in_s1: "Name c \<in> Name ` set s1"
    by (simp add: s1_def upsert_name_set)
  have in_t: "Name c \<in> Name ` set t"
    using in_s1 by (simp add: t_def fold_upsert_name_set)
  have "fold upsert cs (upsert c t) = t"
  proof (cases "Name c \<in> Name ` set cs")
    case True
    from upsert_absorbed [OF True in_t] IH show ?thesis by simp
  next
    case False
    have "upsert c t = fold upsert cs (upsert c s1)"
      unfolding t_def by (rule upsert_past_fold [OF False in_s1])
    also have "upsert c s1 = s1"
      by (simp add: s1_def upsert_idem)
    finally have "upsert c t = t" by (simp add: t_def)
    with IH show ?thesis by simp
  qed
  then show ?case by (simp add: s1_def t_def)
qed

lemma upsert_member: "c \<in> set (upsert c ds)"
  by (induction ds) auto

lemma upsert_keeps: "c \<in> set ds \<Longrightarrow> Name c' \<noteq> Name c \<Longrightarrow> c \<in> set (upsert c' ds)"
  by (induction ds) auto

lemma fold_upsert_keeps:
  "c \<in> set ds \<Longrightarrow> Name c \<notin> Name ` set cs \<Longrightarrow> c \<in> set (fold upsert cs ds)"
  by (induction cs arbitrary: ds) (auto simp: upsert_keeps)

lemma fold_upsert_member:
  "distinct (map Name cs) \<Longrightarrow> c \<in> set cs \<Longrightarrow> c \<in> set (fold upsert cs ds)"
proof (induction cs arbitrary: ds)
  case Nil
  then show ?case by simp
next
  case (Cons a cs)
  show ?case
  proof (cases "c = a")
    case True
    with Cons.prems(1) have "Name c \<notin> Name ` set cs" by auto
    with True show ?thesis
      by (simp add: fold_upsert_keeps upsert_member)
  next
    case False
    with Cons.prems have "distinct (map Name cs)" "c \<in> set cs" by auto
    then show ?thesis
      by (simp add: Cons.IH)
  qed
qed

subsection \<open>The counters of a run of upserts\<close>

lemma add_counts_Upserted [simp]:
  "UpsertedCount (add_counts r u) = UpsertedCount r + UpsertedCount u"
  by (simp add: add_counts_def)

lemma add_counts_Modified [simp]:
  "ModifiedCount (add_counts r u) = ModifiedCount r + ModifiedCount u"
  by (simp add: add_counts_def)

lemma upsert_counts_Upserted:
  "UpsertedCount (upsert_counts c ds) = (if Name c \<in> Name ` set ds then 0 else 1)"
  by (induction ds) auto

lemma upsert_counts_Modified:
  "ModifiedCount (upsert_counts c ds)
     = (if length (upsert c ds) = length ds \<and> upsert c ds \<noteq> ds then 1 else 0)"
  by (induction ds) auto

text \<open>The upserted count is the number of documents the run adds.\<close>

lemma tally_Upserted:
  "UpsertedCount (tally cs ds r)
     = UpsertedCount r + of_nat (length (fold upsert cs ds) - length ds)"
proof (induction cs arbitrary: ds r)
  case Nil
  then show ?case by simp
next
  case (Cons c cs)
  define L0 where "L0 = length ds"
  define L1 where "L1 = length (upsert c ds)"
  define L2 where "L2 = length (fold upsert cs (upsert c ds))"
  have le: "L0 \<le> L1" "L1 \<le> L2"
    unfolding L0_def L1_def L2_def
    by (simp add: upsert_length) (rule fold_upsert_length_mono)
  have u: "UpsertedCount (upsert_counts c ds) = of_nat (L1 - L0)"
    by (simp add: upsert_counts_Upserted L0_def L1_def upsert_length)
  have "(of_nat (L1 - L0) :: int64) + of_nat (L2 - L1) = of_nat (L2 - L0)"
    using le by (simp flip: of_nat_add)
  then show ?case
    using Cons.IH [of "upsert c ds" "add_counts r (upsert_counts c ds)"] u
    by (simp add: L0_def L1_def L2_def add.assoc)
qed

lemma tally_Upserted_present:
  "Name ` set cs \<subseteq> Name ` set ds \<Longrightarrow> UpsertedCount (tally cs ds r) = UpsertedCount r"
proof (induction cs arbitrary: ds r)
  case Nil
  then show ?case by simp
next
  case (Cons c cs)
  then show ?case
    by (simp add: upsert_counts_Upserted upsert_name_set subset_insertI2)
qed

lemma tally_Modified:
  "ModifiedCount (tally cs ds r) = ModifiedCount r + of_nat (in_place_updates cs ds)"
  by (induction cs arbitrary: ds r) (simp_all add: upsert_counts_Modified add.assoc)

subsection \<open>Counts, refused operations and resubmission\<close>

text \<open>
  C5. On success, the count that \<^verbatim>\<open>ProcessBatch\<close> returns for a non-empty batch is the
  sum of the result's \<open>ModifiedCount\<close> (documents updated in place) and \<open>UpsertedCount\<close>
  (documents newly inserted by an upsert), on any handle; the log line carries the same
  numbers. On the store these two are what their names say: the number of upserts of the
  run that changed a stored document in place, and the number of documents by which the
  collection grew. The sum is that of \<^verbatim>\<open>int64\<close>.
\<close>

theorem ProcessBatch_count:
  "(companies \<noteq> []
      \<and> BulkWrite coll s (build_operations companies []) (SetOrdered False options_BulkWrite)
            = ((result, None), s')
    \<longrightarrow> ProcessBatch coll s companies =
          ((ModifiedCount result + UpsertedCount result, None),
           [Printf_processed (ModifiedCount result + UpsertedCount result)
              (ModifiedCount result) (UpsertedCount result)], s'))
   \<and> (companies \<noteq> []
      \<and> ProcessBatch (store_collection env) st companies = ((n, None), lg, st')
    \<longrightarrow> n = of_nat (in_place_updates (run_order env companies) (documents st))
              + of_nat (length (documents st') - length (documents st)))"
proof -
  have "n = of_nat (in_place_updates (run_order env companies) (documents st))
              + of_nat (length (documents st') - length (documents st))"
    if ne: "companies \<noteq> []"
      and run: "ProcessBatch (store_collection env) st companies = ((n, None), lg, st')"
  proof -
    from run ne have up: "unreachable env = None"
      and ok: "refusals env (run_order env companies) = []"
      by (auto simp: store_ProcessBatch Let_def split: option.splits if_splits)
    from ok have acc: "accepted env (run_order env companies) = run_order env companies"
      by (rule refusals_Nil)
    from run ne up ok acc
    have n: "n = ModifiedCount (tally (run_order env companies) (documents st) no_writes)
                 + UpsertedCount (tally (run_order env companies) (documents st) no_writes)"
      and st': "documents st' = fold upsert (run_order env companies) (documents st)"
      by (auto simp: store_ProcessBatch Let_def)
    show ?thesis
      unfolding n st' by (simp add: tally_Modified tally_Upserted no_writes_def)
  qed
  then show ?thesis
    by (simp add: ProcessBatch_def Let_def)
qed

theorem ProcessBatch_count_witness:
  "ProcessBatch (store_collection env_ok)
       \<lparr>documents = [bolt\<lparr>Address := ''9 New St''\<rparr>], unique_name_index = True\<rparr> [acme, bolt] =
     ((2, None), [Printf_processed 2 1 1],
      \<lparr>documents = [bolt, acme], unique_name_index = True\<rparr>)
   \<and> (2 :: go_int) = of_nat (in_place_updates (run_order env_ok [acme, bolt])
                         [bolt\<lparr>Address := ''9 New St''\<rparr>])
                     + of_nat (length [bolt, acme] - length [bolt\<lparr>Address := ''9 New St''\<rparr>])"
proof -
  have ne: "[acme, bolt] \<noteq> []" by simp
  have call: "BulkWrite (store_collection env_ok)
      \<lparr>documents = [bolt\<lparr>Address := ''9 New St''\<rparr>], unique_name_index = True\<rparr>
      (build_operations [acme, bolt] []) (SetOrdered False options_BulkWrite)
    = ((\<lparr>MatchedCount = 1, ModifiedCount = 1, UpsertedCount = 1\<rparr>, None),
       \<lparr>documents = [bolt, acme], unique_name_index = True\<rparr>)"
    by (simp add: store_defs example_defs)
  have run: "ProcessBatch (store_collection env_ok)
      \<lparr>documents = [bolt\<lparr>Address := ''9 New St''\<rparr>], unique_name_index = True\<rparr> [acme, bolt] =
     ((2, None), [Printf_processed 2 1 1], \<lparr>documents = [bolt, acme], unique_name_index = True\<rparr>)"
    using ProcessBatch_count [of "[acme, bolt]" "store_collection env_ok"
        "\<lparr>documents = [bolt\<lparr>Address := ''9 New St''\<rparr>], unique_name_index = True\<rparr>"
        "\<lparr>MatchedCount = 1, ModifiedCount = 1, UpsertedCount = 1\<rparr>"
        "\<lparr>documents = [bolt, acme], unique_name_index = True\<rparr>"] ne call
    by simp
  from ProcessBatch_count [where companies = "[acme, bolt]" and env = env_ok
        and st = "\<lparr>documents = [bolt\<lparr>Address := ''9 New St''\<rparr>], unique_name_index = True\<rparr>"
        and n = 2 and lg = "[Printf_processed 2 1 1]"
        and st' = "\<lparr>documents = [bolt, acme], unique_name_index = True\<rparr>", THEN conjunct2] ne run
  have "(2 :: go_int) = of_nat (in_place_updates (run_order env_ok [acme, bolt])
          (documents \<lparr>documents = [bolt\<lparr>Address := ''9 New St''\<rparr>], unique_name_index = True\<rparr>))
        + of_nat (length (documents \<lparr>documents = [bolt, acme], unique_name_index = True\<rparr>)
            - length (documents \<lparr>documents = [bolt\<lparr>Address := ''9 New St''\<rparr>],
                                unique_name_index = True\<rparr>))"
    by blast
  with run show ?thesis by simp
qed

text \<open>
  C4. \<^verbatim>\<open>ProcessBatch\<close> asks for an unordered bulk write, so an operation that the store
  refuses does not stop the others. When the command reaches the store, the documents
  afterwards are those before with the upsert of every record that the store did not
  refuse applied, in the order in which the store ran them. So every such record has a
  document of its name afterwards, and when the names of the batch differ from each other
  every such record is itself stored.
\<close>

theorem ProcessBatch_unordered:
  assumes "unreachable env = None"
  shows "(let s' = snd (snd (ProcessBatch (store_collection env) s cs))
     in documents s' = fold upsert (accepted env (run_order env cs)) (documents s)
        \<and> (\<forall>c \<in> set cs. rejects env (upsert_model c) = None
              \<longrightarrow> Name c \<in> Name ` set (documents s'))
        \<and> (distinct (map Name cs) \<longrightarrow>
              (\<forall>c \<in> set cs. rejects env (upsert_model c) = None \<longrightarrow> c \<in> set (documents s'))))"
proof -
  have d: "documents (snd (snd (ProcessBatch (store_collection env) s cs)))
             = fold upsert (accepted env (run_order env cs)) (documents s)"
    using assms by (simp add: store_ProcessBatch_state)
  have acc: "c \<in> set (accepted env (run_order env cs))"
    if "c \<in> set cs" "rejects env (upsert_model c) = None" for c
    using that by (simp add: accepted_def)
  have n: "Name c \<in> Name ` set (fold upsert (accepted env (run_order env cs)) (documents s))"
    if "c \<in> set cs" "rejects env (upsert_model c) = None" for c
    using acc [OF that] by (simp add: fold_upsert_name_set)
  have m: "c \<in> set (fold upsert (accepted env (run_order env cs)) (documents s))"
    if "distinct (map Name cs)" "c \<in> set cs" "rejects env (upsert_model c) = None" for c
  proof -
    from that(1) have "distinct (map Name (run_order env cs))"
      using mset_eq_imp_distinct_iff [of "map Name (run_order env cs)" "map Name cs"] by simp
    then have "distinct (map Name (accepted env (run_order env cs)))"
      by (simp add: accepted_def distinct_map_filter)
    then show ?thesis
      using acc [OF that(2,3)] by (rule fold_upsert_member)
  qed
  show ?thesis
    unfolding Let_def d using n m by blast
qed

theorem ProcessBatch_unordered_witness:
  "ProcessBatch (store_collection env_strict) empty_store [acme, nameless, bolt]
     = ((0, Some ''failed to process batch: bulk write exception: write errors: name must not be empty''),
        [], \<lparr>documents = [bolt, acme], unique_name_index = True\<rparr>)
   \<and> acme \<in> set [bolt, acme] \<and> bolt \<in> set [bolt, acme]"
proof -
  have up: "unreachable env_strict = None"
    by (simp add: env_strict_def)
  have run: "ProcessBatch (store_collection env_strict) empty_store [acme, nameless, bolt]
     = ((0, Some ''failed to process batch: bulk write exception: write errors: name must not be empty''),
        [], \<lparr>documents = [bolt, acme], unique_name_index = True\<rparr>)"
    by (simp add: ProcessBatch_def store_defs example_defs)
  have names: "distinct (map Name [acme, nameless, bolt])"
    and ok: "rejects env_strict (upsert_model acme) = None"
      "rejects env_strict (upsert_model bolt) = None"
    by (simp_all add: example_defs upsert_model_def)
  have mem: "c \<in> set (documents (snd (snd (ProcessBatch (store_collection env_strict) empty_store
        [acme, nameless, bolt]))))"
    if "c \<in> set [acme, nameless, bolt]" "rejects env_strict (upsert_model c) = None" for c
    using ProcessBatch_unordered [OF up, of empty_store "[acme, nameless, bolt]"] names that
    unfolding Let_def by blast
  have docs: "documents (snd (snd (ProcessBatch (store_collection env_strict) empty_store
        [acme, nameless, bolt]))) = [bolt, acme]"
    using run by simp
  from mem [of acme] mem [of bolt] ok have "acme \<in> set [bolt, acme]" "bolt \<in> set [bolt, acme]"
    unfolding docs by simp_all
  with run show ?thesis by blast
qed

text \<open>
  A second submission of a batch and the order in which the store runs it. When no name
  occurs twice in the batch, the second submission may be run in any order, or fail to
  reach the store: the store stays as the first submission left it.
\<close>

lemma find_upsert_same: "find (\<lambda>d. Name d = Name c) (upsert c ds) = Some c"
  by (induction ds) auto

lemma find_upsert_other:
  "Name c \<noteq> n \<Longrightarrow> find (\<lambda>d. Name d = n) (upsert c ds) = find (\<lambda>d. Name d = n) ds"
  by (induction ds) auto

lemma upsert_fixed: "find (\<lambda>d. Name d = Name c) ds = Some c \<Longrightarrow> upsert c ds = ds"
  by (induction ds) (auto split: if_splits)

lemma fold_upsert_find:
  "distinct (map Name cs) \<Longrightarrow> c \<in> set cs \<Longrightarrow>
     find (\<lambda>d. Name d = Name c) (fold upsert cs ds) = Some c"
proof (induction cs arbitrary: ds)
  case Nil
  then show ?case by simp
next
  case (Cons a cs)
  have other: "find (\<lambda>d. Name d = n) (fold upsert cs t) = find (\<lambda>d. Name d = n) t"
    if "n \<notin> Name ` set cs" for n t
    using that by (induction cs arbitrary: t) (auto simp: find_upsert_other)
  show ?case
  proof (cases "c = a")
    case True
    with Cons.prems(1) have "Name c \<notin> Name ` set cs" by auto
    with True show ?thesis
      by (simp add: other find_upsert_same)
  next
    case False
    with Cons.prems have "distinct (map Name cs)" "c \<in> set cs" by auto
    then show ?thesis
      by (simp add: Cons.IH)
  qed
qed

lemma fold_upsert_fixed:
  "(\<And>c. c \<in> set cs \<Longrightarrow> find (\<lambda>d. Name d = Name c) t = Some c) \<Longrightarrow> fold upsert cs t = t"
  by (induction cs) (simp_all add: upsert_fixed)

lemma ProcessBatch_retry_any_order:
  assumes "unreachable env1 = None" and "rejects env2 = rejects env1"
    and "distinct (map Name cs)"
  shows "snd (snd (ProcessBatch (store_collection env2)
                     (snd (snd (ProcessBatch (store_collection env1) s cs))) cs))
           = snd (snd (ProcessBatch (store_collection env1) s cs))"
proof -
  define A1 where "A1 = accepted env1 (run_order env1 cs)"
  define A2 where "A2 = accepted env2 (run_order env2 cs)"
  define t where "t = fold upsert A1 (documents s)"
  have "distinct (map Name (run_order env1 cs))"
    using assms(3) mset_eq_imp_distinct_iff [of "map Name (run_order env1 cs)" "map Name cs"]
    by simp
  then have d1: "distinct (map Name A1)"
    by (simp add: A1_def accepted_def distinct_map_filter)
  have sub: "set A2 \<subseteq> set A1"
    using assms(2) by (auto simp: A1_def A2_def accepted_def)
  have "find (\<lambda>d. Name d = Name c) t = Some c" if "c \<in> set A2" for c
    unfolding t_def using d1 that sub by (auto intro: fold_upsert_find)
  then have fixed: "fold upsert A2 t = t"
    by (rule fold_upsert_fixed)
  have once: "snd (snd (ProcessBatch (store_collection env1) s cs)) = s\<lparr>documents := t\<rparr>"
    using assms(1) by (simp add: store_ProcessBatch_state t_def A1_def)
  show ?thesis
    unfolding once using fixed
    by (simp add: store_ProcessBatch_state A2_def split: option.splits)
qed

text \<open>
  C3. Submitting a batch a second time leaves the store exactly as the first submission
  left it, and a second submission that succeeds inserts nothing (its log line reports 0
  upserted documents, and the count it returns is its modified count alone), under these
  conditions on what the world decides for the two calls: the second submission reaches
  the store only if the first did, the store refuses the same operations in both, and
  either the store runs both submissions in the same order or no name occurs twice in the
  batch. The counts of the two calls may differ: in the first example after the theorem
  they are 2 and 2 with a repeated name, in the second 2 and 0.

  Without the last condition the statement fails: for a batch that repeats a name the last
  write of the name wins, and the order of an unordered bulk write is the store's choice.
  In the last example below the batch holds two records of the name Acme; the store is
  empty, nothing is refused, the first submission leaves the second record stored, and a
  second submission run in the other order leaves the first record stored.
\<close>

theorem ProcessBatch_idempotent:
  assumes reach: "unreachable env2 = None \<longrightarrow> unreachable env1 = None"
    and same: "rejects env2 = rejects env1"
    and order: "priority env2 = priority env1 \<or> distinct (map Name cs)"
  shows "(let once = ProcessBatch (store_collection env1) s cs;
              twice = ProcessBatch (store_collection env2) (snd (snd once)) cs
          in snd (snd twice) = snd (snd once)
             \<and> (cs \<noteq> [] \<and> snd (fst twice) = None \<longrightarrow>
                  fst (snd twice) = [Printf_processed (fst (fst twice)) (fst (fst twice)) 0]))"
proof (cases "unreachable env2")
  case (Some e)
  then show ?thesis
    by (cases "cs = []") (simp_all add: Let_def store_ProcessBatch ProcessBatch_Nil)
next
  case None
  with reach have up1: "unreachable env1 = None" by simp
  define A1 where "A1 = accepted env1 (run_order env1 cs)"
  define A2 where "A2 = accepted env2 (run_order env2 cs)"
  define s1 where "s1 = s\<lparr>documents := fold upsert A1 (documents s)\<rparr>"
  have once: "snd (snd (ProcessBatch (store_collection env1) s cs)) = s1"
    using up1 by (simp add: store_ProcessBatch_state s1_def A1_def)
  have twice: "snd (snd (ProcessBatch (store_collection env2) s1 cs)) = s1"
  proof (cases "priority env2 = priority env1")
    case True
    with same have "A2 = A1"
      by (simp add: A1_def A2_def accepted_def run_order_def)
    then show ?thesis
      using None by (simp add: store_ProcessBatch_state s1_def A2_def [symmetric] fold_upsert_idem)
  next
    case False
    with order have "distinct (map Name cs)" by simp
    from ProcessBatch_retry_any_order [OF up1 same this, of s] show ?thesis
      by (simp only: once)
  qed
  have "set A2 = set A1"
    using same by (auto simp: A1_def A2_def accepted_def)
  then have "Name ` set A2 \<subseteq> Name ` set (documents s1)"
    by (simp add: s1_def fold_upsert_name_set)
  then have up: "UpsertedCount (tally A2 (documents s1) no_writes) = 0"
    by (simp add: tally_Upserted_present no_writes_def)
  have "fst (snd (ProcessBatch (store_collection env2) s1 cs))
          = [Printf_processed (fst (fst (ProcessBatch (store_collection env2) s1 cs)))
               (fst (fst (ProcessBatch (store_collection env2) s1 cs))) 0]"
    if "cs \<noteq> []" "snd (fst (ProcessBatch (store_collection env2) s1 cs)) = None"
    using that None up by (simp add: store_ProcessBatch Let_def A2_def split: if_splits)
  with once twice show ?thesis
    by (simp add: Let_def)
qed

theorem ProcessBatch_idempotent_witness:
  "ProcessBatch (store_collection env_ok) empty_store [acme, acme_moved]
     = ((2, None), [Printf_processed 2 1 1], \<lparr>documents = [acme_moved], unique_name_index = True\<rparr>)
   \<and> ProcessBatch (store_collection env_ok) \<lparr>documents = [acme_moved], unique_name_index = True\<rparr>
        [acme, acme_moved]
     = ((2, None), [Printf_processed 2 2 0], \<lparr>documents = [acme_moved], unique_name_index = True\<rparr>)
   \<and> ProcessBatch (store_collection env_ok) empty_store [acme, bolt]
     = ((2, None), [Printf_processed 2 0 2], \<lparr>documents = [acme, bolt], unique_name_index = True\<rparr>)
   \<and> ProcessBatch (store_collection env_reordered)
        \<lparr>documents = [acme, bolt], unique_name_index = True\<rparr> [acme, bolt]
     = ((0, None), [Printf_processed 0 0 0], \<lparr>documents = [acme, bolt], unique_name_index = True\<rparr>)"
proof -
  have reach: "unreachable env_ok = None \<longrightarrow> unreachable env_ok = None"
    "unreachable env_reordered = None \<longrightarrow> unreachable env_ok = None"
    by (simp_all add: env_ok_def)
  have same: "rejects env_ok = rejects env_ok" "rejects env_reordered = rejects env_ok"
    by (simp_all add: env_ok_def env_reordered_def)
  have order: "priority env_ok = priority env_ok \<or> distinct (map Name [acme, acme_moved])"
    "priority env_reordered = priority env_ok \<or> distinct (map Name [acme, bolt])"
    by (simp_all add: acme_def bolt_def)
  have once_a: "ProcessBatch (store_collection env_ok) empty_store [acme, acme_moved]
     = ((2, None), [Printf_processed 2 1 1], \<lparr>documents = [acme_moved], unique_name_index = True\<rparr>)"
    by (simp add: ProcessBatch_def store_defs example_defs acme_moved_def)
  have count_a: "fst (fst (ProcessBatch (store_collection env_ok)
        \<lparr>documents = [acme_moved], unique_name_index = True\<rparr> [acme, acme_moved])) = 2"
    and err_a: "snd (fst (ProcessBatch (store_collection env_ok)
        \<lparr>documents = [acme_moved], unique_name_index = True\<rparr> [acme, acme_moved])) = None"
    by (simp_all add: ProcessBatch_def store_defs example_defs acme_moved_def)
  have once_b: "ProcessBatch (store_collection env_ok) empty_store [acme, bolt]
     = ((2, None), [Printf_processed 2 0 2], \<lparr>documents = [acme, bolt], unique_name_index = True\<rparr>)"
    by (simp add: ProcessBatch_def store_defs example_defs)
  have count_b: "fst (fst (ProcessBatch (store_collection env_reordered)
        \<lparr>documents = [acme, bolt], unique_name_index = True\<rparr> [acme, bolt])) = 0"
    and err_b: "snd (fst (ProcessBatch (store_collection env_reordered)
        \<lparr>documents = [acme, bolt], unique_name_index = True\<rparr> [acme, bolt])) = None"
    by (simp_all add: ProcessBatch_def store_defs example_defs env_reordered_def)
  from ProcessBatch_idempotent [OF reach(1) same(1) order(1), of empty_store]
    once_a count_a err_a
  have a: "ProcessBatch (store_collection env_ok)
        \<lparr>documents = [acme_moved], unique_name_index = True\<rparr> [acme, acme_moved]
     = ((2, None), [Printf_processed 2 2 0], \<lparr>documents = [acme_moved], unique_name_index = True\<rparr>)"
    by (simp add: Let_def prod_eq_iff)
  from ProcessBatch_idempotent [OF reach(2) same(2) order(2), of empty_store]
    once_b count_b err_b
  have b: "ProcessBatch (store_collection env_reordered)
        \<lparr>documents = [acme, bolt], unique_name_index = True\<rparr> [acme, bolt]
     = ((0, None), [Printf_processed 0 0 0], \<lparr>documents = [acme, bolt], unique_name_index = True\<rparr>)"
    by (simp add: Let_def prod_eq_iff)
  from once_a a once_b b show ?thesis by blast
qed

theorem ProcessBatch_idempotent_counterexample:
  "ProcessBatch (store_collection env_ok) empty_store [acme, acme_moved]
     = ((2, None), [Printf_processed 2 1 1], \<lparr>documents = [acme_moved], unique_name_index = True\<rparr>)
   \<and> ProcessBatch (store_collection env_reordered)
        \<lparr>documents = [acme_moved], unique_name_index = True\<rparr> [acme, acme_moved]
     = ((1, None), [Printf_processed 1 1 0], \<lparr>documents = [acme], unique_name_index = True\<rparr>)
   \<and> snd (snd (ProcessBatch (store_collection env_reordered)
          (snd (snd (ProcessBatch (store_collection env_ok) empty_store [acme, acme_moved])))
          [acme, acme_moved]))
       \<noteq> snd (snd (ProcessBatch (store_collection env_ok) empty_store [acme, acme_moved]))"
proof -
  have once: "ProcessBatch (store_collection env_ok) empty_store [acme, acme_moved]
     = ((2, None), [Printf_processed 2 1 1], \<lparr>documents = [acme_moved], unique_name_index = True\<rparr>)"
    by (simp add: ProcessBatch_def store_defs example_defs acme_moved_def)
  have twice: "ProcessBatch (store_collection env_reordered)
        \<lparr>documents = [acme_moved], unique_name_index = True\<rparr> [acme, acme_moved]
     = ((1, None), [Printf_processed 1 1 0], \<lparr>documents = [acme], unique_name_index = True\<rparr>)"
    by (simp add: ProcessBatch_def store_defs example_defs acme_moved_def env_reordered_def)
  have "acme \<noteq> acme_moved"
    by (simp add: acme_def acme_moved_def)
  with once twice show ?thesis by simp
qed

subsection \<open>UpdateTreatedField on the store\<close>

lemma mark_treated_first_match:
  "mark_treated n ds =
     (case first_match (\<lambda>d. Name d = n) ds of
        None \<Rightarrow> ds
      | Some i \<Rightarrow> ds[i := (ds ! i)\<lparr>Treated := True\<rparr>])"
  by (induction ds) (auto split: option.splits)

lemma find_first_match: "find P ds = map_option (\<lambda>i. ds ! i) (first_match P ds)"
  by (induction ds) (auto simp: option.map_comp comp_def)

lemma treated_eq: "(d\<lparr>Treated := True\<rparr> = d) = Treated d" for d :: Company
  by (cases d) auto

lemma mark_treated_names: "map Name (mark_treated n ds) = map Name ds"
  by (induction ds) auto

lemma mark_treated_addresses: "map Address (mark_treated n ds) = map Address ds"
  by (induction ds) auto

lemma write_one_treated:
  "write_one env (treated_model n) s =
     (case rejects env (treated_model n) of
        Some e \<Rightarrow> Inl e
      | None \<Rightarrow>
          (case find (\<lambda>d. Name d = n) (documents s) of
             None \<Rightarrow> Inr (s, \<lparr>MatchedCount = 0, ModifiedCount = 0, UpsertedCount = 0\<rparr>)
           | Some d \<Rightarrow>
               if Treated d
               then Inr (s, \<lparr>MatchedCount = 1, ModifiedCount = 0, UpsertedCount = 0\<rparr>)
               else Inr (s\<lparr>documents := mark_treated n (documents s)\<rparr>,
                         \<lparr>MatchedCount = 1, ModifiedCount = 1, UpsertedCount = 0\<rparr>)))"
proof -
  have M: "matches [E_name n] = (\<lambda>d. Name d = n)"
    by (rule ext) simp
  show ?thesis
    by (simp add: write_one_def treated_model_def M find_first_match mark_treated_first_match
        treated_eq Let_def split: option.splits)
qed

lemma store_UpdateTreatedField:
  "UpdateTreatedField (store_collection env) s n =
     (case unreachable env of
        Some e \<Rightarrow> (Some (''failed to update treated field: '' @ e), [], s)
      | None \<Rightarrow>
         (case rejects env (treated_model n) of
            Some e \<Rightarrow> (Some (''failed to update treated field: '' @ e), [], s)
          | None \<Rightarrow>
             (case find (\<lambda>d. Name d = n) (documents s) of
                None \<Rightarrow> (Some (''company not found: '' @ n), [], s)
              | Some d \<Rightarrow>
                  if Treated d
                  then (Some (''company found but no update performed: '' @ n), [], s)
                  else (None, [Printf_updated n],
                        s\<lparr>documents := mark_treated n (documents s)\<rparr>))))"
proof -
  have "store_UpdateOne env s [E_name n] (UpdateSet [E_treated True]) =
     (case unreachable env of
        Some e \<Rightarrow> ((no_writes, Some e), s)
      | None \<Rightarrow>
          (case write_one env (treated_model n) s of
             Inl e \<Rightarrow> ((no_writes, Some e), s)
           | Inr (s', r) \<Rightarrow> ((r, None), s')))"
    unfolding store_UpdateOne_def treated_model_def by (rule refl)
  then show ?thesis
    by (simp add: UpdateTreatedField_def store_collection_def write_one_treated Let_def
        split: option.splits)
qed

lemma store_UpdateTreatedField_state:
  "documents (snd (snd (UpdateTreatedField (store_collection env) s n))) = documents s
   \<or> documents (snd (snd (UpdateTreatedField (store_collection env) s n)))
        = mark_treated n (documents s)"
  by (simp add: store_UpdateTreatedField split: option.splits)

text \<open>
  C7. When the update reaches the store and is not refused, \<^verbatim>\<open>UpdateTreatedField\<close> has
  three outcomes, decided by the first stored document of the given name (the only one,
  under the uniqueness invariant). There is none: the error "company not found", nothing
  changed. It is already treated: the error "company found but no update performed",
  nothing changed. It is not treated: no error, a log line, and that document is now
  treated.
\<close>

theorem UpdateTreatedField_trichotomy:
  assumes "unreachable env = None" and "rejects env (treated_model n) = None"
  shows "(find (\<lambda>d. Name d = n) (documents s) = None \<longrightarrow>
            UpdateTreatedField (store_collection env) s n
              = (Some (''company not found: '' @ n), [], s))
    \<and> (\<forall>d. find (\<lambda>d. Name d = n) (documents s) = Some d \<and> Treated d \<longrightarrow>
            UpdateTreatedField (store_collection env) s n
              = (Some (''company found but no update performed: '' @ n), [], s))
    \<and> (\<forall>d. find (\<lambda>d. Name d = n) (documents s) = Some d \<and> \<not> Treated d \<longrightarrow>
            UpdateTreatedField (store_collection env) s n
              = (None, [Printf_updated n], s\<lparr>documents := mark_treated n (documents s)\<rparr>)
            \<and> find (\<lambda>d. Name d = n) (mark_treated n (documents s))
                = Some (d\<lparr>Treated := True\<rparr>))"
proof -
  have "find (\<lambda>d. Name d = n) (mark_treated n ds) = Some (d\<lparr>Treated := True\<rparr>)"
    if "find (\<lambda>d. Name d = n) ds = Some d" for ds d
    using that by (induction ds) (auto split: if_splits)
  with assms show ?thesis
    by (simp add: store_UpdateTreatedField)
qed

theorem UpdateTreatedField_trichotomy_witness:
  "UpdateTreatedField (store_collection env_ok) two_companies ''Core''
      = (Some ''company not found: Core'', [], two_companies)
   \<and> UpdateTreatedField (store_collection env_ok) two_companies ''Bolt''
      = (Some ''company found but no update performed: Bolt'', [], two_companies)
   \<and> UpdateTreatedField (store_collection env_ok) two_companies ''Acme''
      = (None, [Printf_updated ''Acme''],
         \<lparr>documents = [bolt, acme\<lparr>Treated := True\<rparr>], unique_name_index = True\<rparr>)"
proof -
  have up: "unreachable env_ok = None" and ok: "rejects env_ok (treated_model n) = None" for n
    by (simp_all add: env_ok_def)
  from UpdateTreatedField_trichotomy [OF up ok, of "''Core''" two_companies]
    UpdateTreatedField_trichotomy [OF up ok, of "''Bolt''" two_companies]
    UpdateTreatedField_trichotomy [OF up ok, of "''Acme''" two_companies]
  show ?thesis
    by (simp add: two_companies_def acme_def bolt_def)
qed

text \<open>
  C8. A call of \<^verbatim>\<open>UpdateTreatedField\<close> that succeeds changes one stored document, one of
  the given name that was not treated, and in it only \<open>treated\<close>: the names and the
  addresses of all documents are as before, every other document is as before, and so is
  the index.
\<close>

theorem UpdateTreatedField_frame:
  assumes "UpdateTreatedField (store_collection env) s n = (None, lg, s')"
  shows "map Name (documents s') = map Name (documents s)
    \<and> map Address (documents s') = map Address (documents s)
    \<and> unique_name_index s' = unique_name_index s
    \<and> (\<exists>i < length (documents s). Name (documents s ! i) = n \<and> \<not> Treated (documents s ! i)
          \<and> documents s' = (documents s)[i := (documents s ! i)\<lparr>Treated := True\<rparr>])"
proof -
  from assms obtain d where d: "find (\<lambda>d. Name d = n) (documents s) = Some d" "\<not> Treated d"
    and s': "s' = s\<lparr>documents := mark_treated n (documents s)\<rparr>"
    by (auto simp: store_UpdateTreatedField split: option.splits if_splits)
  from d(1) obtain i
    where i: "first_match (\<lambda>d. Name d = n) (documents s) = Some i" "d = documents s ! i"
    by (auto simp: find_first_match)
  from first_match_Some [OF i(1)] have "i < length (documents s)" "Name (documents s ! i) = n"
    by auto
  moreover have "documents s' = (documents s)[i := (documents s ! i)\<lparr>Treated := True\<rparr>]"
    using s' i(1) by (simp add: mark_treated_first_match)
  moreover have "map Name (documents s') = map Name (documents s)"
    "map Address (documents s') = map Address (documents s)"
    "unique_name_index s' = unique_name_index s"
    using s' by (simp_all add: mark_treated_names mark_treated_addresses)
  ultimately show ?thesis
    using d(2) i(2) by blast
qed

theorem UpdateTreatedField_frame_witness:
  "UpdateTreatedField (store_collection env_ok) two_companies ''Acme''
      = (None, [Printf_updated ''Acme''],
         \<lparr>documents = [bolt, acme\<lparr>Treated := True\<rparr>], unique_name_index = True\<rparr>)
   \<and> map Name [bolt, acme\<lparr>Treated := True\<rparr>] = map Name (documents two_companies)
   \<and> map Address [bolt, acme\<lparr>Treated := True\<rparr>] = map Address (documents two_companies)
   \<and> (\<exists>i < length (documents two_companies).
         [bolt, acme\<lparr>Treated := True\<rparr>]
           = (documents two_companies)[i := (documents two_companies ! i)\<lparr>Treated := True\<rparr>])"
proof -
  have run: "UpdateTreatedField (store_collection env_ok) two_companies ''Acme''
      = (None, [Printf_updated ''Acme''],
         \<lparr>documents = [bolt, acme\<lparr>Treated := True\<rparr>], unique_name_index = True\<rparr>)"
    by (simp add: UpdateTreatedField_def store_defs example_defs)
  from UpdateTreatedField_frame [OF run] run show ?thesis
    by auto
qed

subsection \<open>FetchAllCompanies on the store\<close>

lemma sort_by_name:
  "sort_documents (Sort (SetSort [(K_name, 1)] options_Find)) ds = sort_key Name ds"
  by (simp add: sort_documents_def SetSort_def options_Find_def)

lemma store_FetchAllCompanies:
  "FetchAllCompanies (store_collection env) s =
     (case unreachable env of
        Some e \<Rightarrow> Inl (''failed to fetch companies: '' @ e)
      | None \<Rightarrow>
          (case cursor_failure env of
             Some e \<Rightarrow> Inl (''failed to decode companies: '' @ e)
           | None \<Rightarrow> Inr (sort_key Name (documents s))))"
proof -
  have "filter (matches []) ds = ds" for ds
    by simp
  then show ?thesis
    by (simp add: FetchAllCompanies_def store_collection_def store_Find_def sort_by_name
        split: option.splits)
qed

text \<open>
  C9. \<^verbatim>\<open>FetchAllCompanies\<close> returns a result whenever the store can be reached and the
  cursor read. What it returns is every stored document, each as often as it is stored,
  in ascending order of the names; this holds for any state of the store, so also after
  any updates. Under the uniqueness invariant the result does not depend on the order in
  which the documents are stored: two stores with the same documents give the same list.
\<close>

theorem FetchAllCompanies_sorted:
  "(unreachable env = None \<and> cursor_failure env = None \<longrightarrow>
      (\<exists>companies. FetchAllCompanies (store_collection env) s = Inr companies))
   \<and> (\<forall>companies. FetchAllCompanies (store_collection env) s = Inr companies \<longrightarrow>
        sorted (map Name companies) \<and> mset companies = mset (documents s)
        \<and> (\<forall>s'. distinct (map Name (documents s)) \<and> set (documents s') = set (documents s)
                  \<and> distinct (map Name (documents s'))
              \<longrightarrow> FetchAllCompanies (store_collection env) s' = Inr companies))"
proof -
  have det: "sort_key Name (documents s') = sort_key Name (documents s)"
    if "distinct (map Name (documents s))" "set (documents s') = set (documents s)"
       "distinct (map Name (documents s'))" for s' :: Store
  proof (rule sort_key_eq_sort_key)
    from that have "distinct (documents s)" "distinct (documents s')"
      by (simp_all add: distinct_map)
    with that(2) show "mset (documents s') = mset (documents s)"
      by (simp add: set_eq_iff_mset_eq_distinct)
    from that(3) show "inj_on Name (set (documents s'))"
      by (simp add: distinct_map)
  qed
  show ?thesis
    by (auto simp: store_FetchAllCompanies det split: option.splits)
qed

theorem FetchAllCompanies_sorted_witness:
  "FetchAllCompanies (store_collection env_ok) two_companies = Inr [acme, bolt]
   \<and> sorted (map Name [acme, bolt])
   \<and> mset [acme, bolt] = mset (documents two_companies)
   \<and> FetchAllCompanies (store_collection env_ok)
        \<lparr>documents = [acme, bolt], unique_name_index = True\<rparr> = Inr [acme, bolt]"
proof -
  have run: "FetchAllCompanies (store_collection env_ok) two_companies = Inr [acme, bolt]"
    by (simp add: FetchAllCompanies_def store_defs example_defs
        sort_documents_def SetSort_def options_Find_def)
  have same: "distinct (map Name (documents two_companies))
     \<and> set (documents \<lparr>documents = [acme, bolt], unique_name_index = True\<rparr>)
         = set (documents two_companies)
     \<and> distinct (map Name (documents \<lparr>documents = [acme, bolt], unique_name_index = True\<rparr>))"
    by (auto simp: two_companies_def acme_def bolt_def)
  from FetchAllCompanies_sorted [of env_ok two_companies] run same show ?thesis
    by blast
qed

subsection \<open>The uniqueness invariant\<close>

lemma run_operation_distinct:
  "distinct (map Name (documents s)) \<Longrightarrow> distinct (map Name (documents (run_operation op s)))"
proof (cases op)
  case (Op_ProcessBatch env cs)
  assume "distinct (map Name (documents s))"
  with Op_ProcessBatch show ?thesis
    by (simp add: store_ProcessBatch_state fold_upsert_distinct split: option.splits)
next
  case (Op_UpdateTreatedField env n)
  assume "distinct (map Name (documents s))"
  with Op_UpdateTreatedField store_UpdateTreatedField_state [of env s n] show ?thesis
    by (auto simp: mark_treated_names)
qed

lemma NewBatchProcessor_distinct:
  "NewBatchProcessor st s0 b w = Inr (bp, s) \<Longrightarrow>
     distinct (map Name (documents s)) \<and> unique_name_index s \<and> documents s = documents s0"
  by (auto simp: NewBatchProcessor_def create_unique_name_index_def
      split: option.splits if_splits)

text \<open>
  C2. The store holds at most one document per name. \<^verbatim>\<open>NewBatchProcessor\<close> returns a
  processor only for a collection in which this holds (the unique index on the name is
  built or the start fails), and every call keeps it: after any sequence of
  \<^verbatim>\<open>ProcessBatch\<close> and \<^verbatim>\<open>UpdateTreatedField\<close> calls, with any batches and names and
  whatever fails on the way, the names of the stored documents are still distinct.
\<close>

theorem names_unique_invariant:
  "(NewBatchProcessor st s0 b w = Inr (bp, s) \<longrightarrow> distinct (map Name (documents s)))
   \<and> (distinct (map Name (documents s)) \<longrightarrow>
        distinct (map Name (documents (run_operations ops s))))"
proof -
  have "distinct (map Name (documents (fold run_operation ops s)))"
    if "distinct (map Name (documents s))"
    using that by (induction ops arbitrary: s) (simp_all add: run_operation_distinct)
  then show ?thesis
    by (auto simp: run_operations_def dest: NewBatchProcessor_distinct)
qed

theorem names_unique_invariant_witness:
  "NewBatchProcessor \<lparr>connect_error = None, ping_error = None\<rparr>
       \<lparr>documents = [bolt], unique_name_index = False\<rparr> 100 4
     = Inr (\<lparr>batchSize = 100, workers = 4\<rparr>, \<lparr>documents = [bolt], unique_name_index = True\<rparr>)
   \<and> run_operations
        [Op_ProcessBatch env_ok [acme, bolt\<lparr>Address := ''9 New St''\<rparr>, acme],
         Op_UpdateTreatedField env_ok ''Acme'']
        \<lparr>documents = [bolt], unique_name_index = True\<rparr>
     = \<lparr>documents = [bolt\<lparr>Address := ''9 New St''\<rparr>, acme\<lparr>Treated := True\<rparr>],
        unique_name_index = True\<rparr>
   \<and> distinct (map Name (documents (run_operations
        [Op_ProcessBatch env_ok [acme, bolt\<lparr>Address := ''9 New St''\<rparr>, acme],
         Op_UpdateTreatedField env_ok ''Acme'']
        \<lparr>documents = [bolt], unique_name_index = True\<rparr>)))"
proof -
  have start: "NewBatchProcessor \<lparr>connect_error = None, ping_error = None\<rparr>
       \<lparr>documents = [bolt], unique_name_index = False\<rparr> 100 4
     = Inr (\<lparr>batchSize = 100, workers = 4\<rparr>, \<lparr>documents = [bolt], unique_name_index = True\<rparr>)"
    by (simp add: NewBatchProcessor_def create_unique_name_index_def)
  have run: "run_operations
        [Op_ProcessBatch env_ok [acme, bolt\<lparr>Address := ''9 New St''\<rparr>, acme],
         Op_UpdateTreatedField env_ok ''Acme'']
        \<lparr>documents = [bolt], unique_name_index = True\<rparr>
     = \<lparr>documents = [bolt\<lparr>Address := ''9 New St''\<rparr>, acme\<lparr>Treated := True\<rparr>],
        unique_name_index = True\<rparr>"
    by (simp add: run_operations_def ProcessBatch_def UpdateTreatedField_def store_defs
        example_defs)
  have "distinct (map Name (documents (run_operations
        [Op_ProcessBatch env_ok [acme, bolt\<lparr>Address := ''9 New St''\<rparr>, acme],
         Op_UpdateTreatedField env_ok ''Acme'']
        \<lparr>documents = [bolt], unique_name_index = True\<rparr>)))"
    using names_unique_invariant [of "\<lparr>connect_error = None, ping_error = None\<rparr>"
      "\<lparr>documents = [bolt], unique_name_index = False\<rparr>" 100 4
      "\<lparr>batchSize = 100, workers = 4\<rparr>" "\<lparr>documents = [bolt], unique_name_index = True\<rparr>"]
      start by blast
  with start run show ?thesis by blast
qed

end
